theory Spec2Isabelle
  imports Main "HOL-Library.Word"
begin

section \<open>The data model of the media source\<close>

text \<open>
  The development embeds \<^verbatim>\<open>v4l2_media_source.go\<close> (the video4linux2 media source) and
  the constructor \<^verbatim>\<open>NewRTSPAudioVideoSource\<close> of the media source interfaces.

  Go's \<^verbatim>\<open>uint\<close> values (width, height, bitrate) are only passed through to the device
  adapter; no arithmetic is done on them.
\<close>

type_synonym uint = "64 word"
type_synonym byte = "8 word"
type_synonym chunk = "byte list"

text \<open>
  The errors of the package. \<^verbatim>\<open>errNotImplemented\<close> and \<^verbatim>\<open>errNotSupported\<close> are
  declared outside the given sources; \<open>AdapterError\<close> stands for any error value that the
  device adapter hands back.
\<close>

datatype error = errNotImplemented | errNotSupported | AdapterError string

text \<open>
  The pixel formats of the \<^verbatim>\<open>v4l2\<close> package are kept as opaque tags: the source only
  names \<^verbatim>\<open>V4L2_PIX_FMT_H264\<close>.
\<close>

datatype pix_format = V4L2_PIX_FMT_H264 | V4L2_PIX_FMT_other nat

record v4l2_Config =
  Width :: uint
  Height :: uint
  Format :: pix_format
  RepeatSequenceHeader :: bool

text \<open>
  The capture device adapter (\<^verbatim>\<open>*v4l2.VideoReader\<close>) is an external collaborator. The
  embedding keeps the device handle as the sequence of calls made on it, oldest first, and
  takes what the adapter returns as a parameter of the operation that calls it.
\<close>

datatype dev_call =
    DOpen string v4l2_Config
  | DSetBitrate uint
  | DFlipHorizontal
  | DFlipVertical
  | DStart
  | DStop
  | DRead
  | DClose

text \<open>What the adapter answers to the calls of the constructor; \<open>None\<close> is a nil error.\<close>

record v4l2_env =
  Open_err :: "string \<Rightarrow> v4l2_Config \<Rightarrow> error option"
  SetBitrate_err :: "uint \<Rightarrow> error option"
  FlipHorizontal_err :: "error option"
  FlipVertical_err :: "error option"

text \<open>
  Modelled from the spec: the Broadcast Buffer (\<^verbatim>\<open>Buffer\<close>, \<^verbatim>\<open>NewBuffer\<close>,
  \<^verbatim>\<open>Write\<close>, \<^verbatim>\<open>Close\<close>), which is not among the given sources. It is a byte conduit
  with one writer and one reader: \<open>data\<close> holds the chunks written so far, each one a copy
  of the bytes handed to \<^verbatim>\<open>Write\<close>, in the order of the writes; a write after close is
  a no-op; close is idempotent and makes the reader see end-of-stream after the data.
\<close>

record Buffer =
  data :: "chunk list"
  closed :: bool

definition NewBuffer :: Buffer where
  "NewBuffer = \<lparr>data = [], closed = False\<rparr>"

definition Buffer_Write :: "chunk \<Rightarrow> Buffer \<Rightarrow> Buffer" where
  "Buffer_Write p b = (if closed b then b else b\<lparr>data := data b @ [p]\<rparr>)"

definition Buffer_Close :: "Buffer \<Rightarrow> Buffer" where
  "Buffer_Close b = b\<lparr>closed := True\<rparr>"

text \<open>
  Modelled from the spec: \<^verbatim>\<open>NewH264VideoTrack\<close>, which is not among the given sources.
  A track wraps one Broadcast Buffer; its identity, the key of the association map, is that
  of the buffer it was made for. Buffers live in a store and are named by their index.
\<close>

datatype Track = H264VideoTrack nat

fun buffer_of :: "Track \<Rightarrow> nat" where
  "buffer_of (H264VideoTrack b) = b"

definition NewH264VideoTrack :: "nat \<Rightarrow> Track" where
  "NewH264VideoTrack buf = H264VideoTrack buf"

subsection \<open>The association map\<close>

text \<open>
  \<^verbatim>\<open>map[Track]*Buffer\<close> as an association list from tracks to buffer references. The
  order of the list is the order in which \<^verbatim>\<open>range\<close> visits the entries; Go leaves that
  order unspecified, and no result below depends on it. A list built from the empty one by
  \<open>map_store\<close> and \<open>map_delete\<close> holds no key twice, so that its length is
  \<^verbatim>\<open>len(ms.tracks)\<close>.
\<close>

type_synonym track_map = "(Track \<times> nat) list"

fun map_lookup :: "track_map \<Rightarrow> Track \<Rightarrow> nat option" where
  "map_lookup [] t = None"
| "map_lookup ((k, v) # m) t = (if k = t then Some v else map_lookup m t)"

fun map_store :: "Track \<Rightarrow> nat \<Rightarrow> track_map \<Rightarrow> track_map" where
  "map_store t b [] = [(t, b)]"
| "map_store t b ((k, v) # m) = (if k = t then (k, b) # m else (k, v) # map_store t b m)"

fun map_delete :: "Track \<Rightarrow> track_map \<Rightarrow> track_map" where
  "map_delete t [] = []"
| "map_delete t ((k, v) # m) = (if k = t then map_delete t m else (k, v) # map_delete t m)"

subsection \<open>The state\<close>

text \<open>
  \<open>device\<close> and \<open>tracks\<close> are the fields of the Go struct. \<open>heap\<close> is the store of the
  buffers allocated so far, which the tracks handed to consumers keep referring to after
  their association is deleted. \<open>loops\<close> counts the \<^verbatim>\<open>readLoop\<close> goroutines that were
  launched and have not returned.
\<close>

record V4L2MediaSource =
  device :: "dev_call list"
  tracks :: track_map
  heap :: "Buffer list"
  loops :: nat

section \<open>The operations\<close>

subsection \<open>NewV4L2MediaSource\<close>

text \<open>
  The result is Go's pair of a source pointer and an error (\<open>None\<close> for nil), together
  with the calls made on the device adapter up to the return.
\<close>

definition NewV4L2MediaSource ::
  "v4l2_env \<Rightarrow> string \<Rightarrow> uint \<Rightarrow> uint \<Rightarrow> uint \<Rightarrow> bool \<Rightarrow> bool \<Rightarrow>
     dev_call list \<times> V4L2MediaSource option \<times> error option" where
  "NewV4L2MediaSource env filename width height bitrate hflip vflip =
    (let cfg = \<lparr>Width = width, Height = height, Format = V4L2_PIX_FMT_H264,
                RepeatSequenceHeader = True\<rparr>;
         dev = [DOpen filename cfg]
     in case Open_err env filename cfg of
          Some err \<Rightarrow> (dev, None, Some err)
        | None \<Rightarrow>
     (let dev = dev @ [DSetBitrate bitrate]
      in case SetBitrate_err env bitrate of
          Some err \<Rightarrow> (dev, None, Some err)
        | None \<Rightarrow>
     (let dev = (if hflip then dev @ [DFlipHorizontal] else dev)
      in case (if hflip then FlipHorizontal_err env else None) of
          Some err \<Rightarrow> (dev, None, Some err)
        | None \<Rightarrow>
     (let dev = (if vflip then dev @ [DFlipVertical] else dev)
      in case (if vflip then FlipVertical_err env else None) of
          Some err \<Rightarrow> (dev, None, Some err)
        | None \<Rightarrow>
          (dev, Some \<lparr>device = dev, tracks = [], heap = [], loops = 0\<rparr>, None)))))"

subsection \<open>NewRTSPAudioVideoSource\<close>

text \<open>The combined source has no fields of its own in the embedding.\<close>

datatype RTSPAudioVideoSource = RTSPAudioVideoSource

definition NewRTSPAudioVideoSource ::
  "string \<Rightarrow> RTSPAudioVideoSource option \<times> error option" where
  "NewRTSPAudioVideoSource url = (None, Some errNotImplemented)"

subsection \<open>GetTrack and CloseTrack\<close>

definition GetTrack :: "V4L2MediaSource \<Rightarrow> Track \<times> V4L2MediaSource" where
  "GetTrack ms =
    (let buf = length (heap ms);
         ms = ms\<lparr>heap := heap ms @ [NewBuffer]\<rparr>;
         track = NewH264VideoTrack buf;
         ms = ms\<lparr>tracks := map_store track buf (tracks ms)\<rparr>;
         ms = (if length (tracks ms) = 1
               then ms\<lparr>device := device ms @ [DStart], loops := loops ms + 1\<rparr>
               else ms)
     in (track, ms))"

definition CloseTrack :: "Track \<Rightarrow> V4L2MediaSource \<Rightarrow> V4L2MediaSource" where
  "CloseTrack track ms =
    (case map_lookup (tracks ms) track of
       None \<Rightarrow> ms
     | Some buffer \<Rightarrow>
        (let ms = ms\<lparr>tracks := map_delete track (tracks ms)\<rparr>;
             ms = (if length (tracks ms) = 0
                   then ms\<lparr>device := device ms @ [DStop]\<rparr>
                   else ms)
         in ms\<lparr>heap := (heap ms)[buffer := Buffer_Close (heap ms ! buffer)]\<rparr>))"

text \<open>
  \<^verbatim>\<open>for t := range ms.tracks { ms.CloseTrack(t) }\<close>: every key of the map is visited
  once. The body deletes only the entry being visited, so the keys visited are those
  present when the loop starts.
\<close>

fun CloseTracks :: "Track list \<Rightarrow> V4L2MediaSource \<Rightarrow> V4L2MediaSource" where
  "CloseTracks [] ms = ms"
| "CloseTracks (t # ts) ms = CloseTracks ts (CloseTrack t ms)"

definition closeAll :: "V4L2MediaSource \<Rightarrow> V4L2MediaSource" where
  "closeAll ms = CloseTracks (map fst (tracks ms)) ms"

subsection \<open>Close\<close>

text \<open>The first argument is what \<^verbatim>\<open>ms.device.Close()\<close> returns.\<close>

definition Close :: "error option \<Rightarrow> V4L2MediaSource \<Rightarrow> error option \<times> V4L2MediaSource" where
  "Close r ms =
    (let ms = closeAll ms
     in (r, ms\<lparr>device := device ms @ [DClose]\<rparr>))"

subsection \<open>readLoop\<close>

text \<open>
  One \<^verbatim>\<open>ms.device.Read(buf)\<close> either fails or fills a prefix of the loop's 256 KiB
  buffer; \<open>ReadOk p\<close> carries that prefix \<^verbatim>\<open>buf[:n]\<close>, the bytes handed to every
  \<^verbatim>\<open>Write\<close> of the iteration. The loop reads into the same buffer again in the
  next iteration; what a Broadcast Buffer holds is its own copy of the bytes.
\<close>

datatype read_result = ReadOk chunk | ReadErr

fun writeAll :: "chunk \<Rightarrow> track_map \<Rightarrow> Buffer list \<Rightarrow> Buffer list" where
  "writeAll p [] h = h"
| "writeAll p ((t, buffer) # m) h = writeAll p m (h[buffer := Buffer_Write p (h ! buffer)])"

datatype loop_status = Running | Returned

text \<open>
  One iteration of the loop. On a read error the function returns, which runs the deferred
  closing of all tracks.
\<close>

definition readLoop_iter :: "read_result \<Rightarrow> V4L2MediaSource \<Rightarrow> loop_status \<times> V4L2MediaSource" where
  "readLoop_iter r ms =
    (let ms = ms\<lparr>device := device ms @ [DRead]\<rparr>
     in case r of
          ReadErr \<Rightarrow> (Returned, closeAll ms)
        | ReadOk p \<Rightarrow> (Running, ms\<lparr>heap := writeAll p (tracks ms) (heap ms)\<rparr>))"

text \<open>
  The loop on its own, against the results of the successive device reads. When the list
  is used up without an error the loop has not returned: it is waiting in the next read.
\<close>

fun readLoop :: "read_result list \<Rightarrow> V4L2MediaSource \<Rightarrow> loop_status \<times> V4L2MediaSource" where
  "readLoop [] ms = (Running, ms)"
| "readLoop (r # rs) ms =
     (case readLoop_iter r ms of
        (Running, ms') \<Rightarrow> readLoop rs ms'
      | (Returned, ms') \<Rightarrow> (Returned, ms'))"

subsection \<open>Interleaved executions\<close>

text \<open>
  The calls of the consumers and the iterations of the read loops, one at a time. A read
  event is an iteration of one of the live loops; when no loop is live nobody reads.
\<close>

datatype event =
    EvGetTrack
  | EvCloseTrack Track
  | EvClose "error option"
  | EvRead read_result

fun step :: "V4L2MediaSource \<Rightarrow> event \<Rightarrow> V4L2MediaSource" where
  "step ms EvGetTrack = snd (GetTrack ms)"
| "step ms (EvCloseTrack t) = CloseTrack t ms"
| "step ms (EvClose r) = snd (Close r ms)"
| "step ms (EvRead r) =
     (if loops ms = 0 then ms
      else case readLoop_iter r ms of
             (Running, ms') \<Rightarrow> ms'
           | (Returned, ms') \<Rightarrow> ms'\<lparr>loops := loops ms' - 1\<rparr>)"

fun run :: "V4L2MediaSource \<Rightarrow> event list \<Rightarrow> V4L2MediaSource" where
  "run ms [] = ms"
| "run ms (e # es) = run (step ms e) es"

subsection \<open>Observations\<close>

text \<open>The chunks that the consumer of a track can read, in order.\<close>

definition received :: "V4L2MediaSource \<Rightarrow> Track \<Rightarrow> chunk list" where
  "received ms t = data (heap ms ! buffer_of t)"

definition end_of_stream :: "V4L2MediaSource \<Rightarrow> Track \<Rightarrow> bool" where
  "end_of_stream ms t = closed (heap ms ! buffer_of t)"

text \<open>
  The successful reads of an execution that fall while the association of a track stands:
  those before the first event that removes it, which is a \<^verbatim>\<open>CloseTrack\<close> of that
  track, a \<^verbatim>\<open>Close\<close> of the source, or a failed read.
\<close>

fun chunks_while_open :: "Track \<Rightarrow> event list \<Rightarrow> chunk list" where
  "chunks_while_open t [] = []"
| "chunks_while_open t (EvRead (ReadOk p) # es) = p # chunks_while_open t es"
| "chunks_while_open t (EvRead ReadErr # es) = []"
| "chunks_while_open t (EvClose r # es) = []"
| "chunks_while_open t (EvCloseTrack t' # es) = (if t' = t then [] else chunks_while_open t es)"
| "chunks_while_open t (EvGetTrack # es) = chunks_while_open t es"

text \<open>
  The device is running when \<^verbatim>\<open>Start\<close> was called on it more recently than
  \<^verbatim>\<open>Stop\<close>.
\<close>

fun running_from :: "bool \<Rightarrow> dev_call list \<Rightarrow> bool" where
  "running_from r [] = r"
| "running_from r (DStart # cs) = running_from True cs"
| "running_from r (DStop # cs) = running_from False cs"
| "running_from r (c # cs) = running_from r cs"

definition dev_running :: "dev_call list \<Rightarrow> bool" where
  "dev_running cs = running_from False cs"

text \<open>No start of a running device and no stop of a stopped one.\<close>

fun alternates_from :: "bool \<Rightarrow> dev_call list \<Rightarrow> bool" where
  "alternates_from r [] = True"
| "alternates_from r (DStart # cs) = (\<not> r \<and> alternates_from True cs)"
| "alternates_from r (DStop # cs) = (r \<and> alternates_from False cs)"
| "alternates_from r (c # cs) = alternates_from r cs"

definition no_double_start_stop :: "dev_call list \<Rightarrow> bool" where
  "no_double_start_stop cs = alternates_from False cs"

section \<open>Example inputs\<close>

text \<open>
  A device adapter that opens only \<^verbatim>\<open>/dev/video0\<close>, rejects a bitrate of zero and
  answers the two flip controls as given; and the source that the constructor builds on it.
\<close>

definition example_env :: "error option \<Rightarrow> error option \<Rightarrow> v4l2_env" where
  "example_env hf vf =
     \<lparr>Open_err = (\<lambda>name cfg. if name = ''/dev/video0'' then None
                                else Some (AdapterError ''no such device'')),
      SetBitrate_err = (\<lambda>b. if b = 0 then Some (AdapterError ''invalid bitrate'') else None),
      FlipHorizontal_err = hf,
      FlipVertical_err = vf\<rparr>"

definition example_cfg :: v4l2_Config where
  "example_cfg = \<lparr>Width = 640, Height = 480, Format = V4L2_PIX_FMT_H264,
                   RepeatSequenceHeader = True\<rparr>"

definition example_source :: V4L2MediaSource where
  "example_source =
     \<lparr>device = [DOpen ''/dev/video0'' example_cfg, DSetBitrate 1000000],
      tracks = [], heap = [], loops = 0\<rparr>"

definition chunk_A :: chunk where "chunk_A = [0x41]"
definition chunk_B :: chunk where "chunk_B = [0x42]"
definition chunk_C :: chunk where "chunk_C = [0x43]"

section \<open>Invariants\<close>

text \<open>
  What holds of every state that the operations reach from a newly built source: the
  association list has no key twice, every association is that of a track with the buffer
  it wraps, the buffer is allocated and not closed, and a read loop is live whenever there
  is an association.
\<close>

definition well_formed :: "V4L2MediaSource \<Rightarrow> bool" where
  "well_formed ms \<longleftrightarrow>
     distinct (map fst (tracks ms))
     \<and> list_all (\<lambda>(t, b). t = H264VideoTrack b \<and> b < length (heap ms) \<and> \<not> closed (heap ms ! b))
          (tracks ms)
     \<and> (tracks ms \<noteq> [] \<longrightarrow> 0 < loops ms)"

text \<open>The start/stop bookkeeping of the device agrees with the association map.\<close>

definition dev_inv :: "V4L2MediaSource \<Rightarrow> bool" where
  "dev_inv ms \<longleftrightarrow>
     (dev_running (device ms) \<longleftrightarrow> tracks ms \<noteq> []) \<and> no_double_start_stop (device ms)"

section \<open>Auxiliary facts\<close>

subsection \<open>The association map\<close>

lemma map_delete_filter: "map_delete t m = filter (\<lambda>p. fst p \<noteq> t) m"
  by (induction m) auto

lemma map_lookup_None_iff: "map_lookup m t = None \<longleftrightarrow> t \<notin> fst ` set m"
  by (induction m) (auto simp: image_iff split: if_splits)

lemma map_lookup_mem: "map_lookup m t = Some b \<Longrightarrow> (t, b) \<in> set m"
  by (induction m) (auto split: if_splits)

lemma map_lookup_distinct:
  "distinct (map fst m) \<Longrightarrow> (t, b) \<in> set m \<Longrightarrow> map_lookup m t = Some b"
  by (induction m) (auto simp: rev_image_eqI)

lemma map_lookup_delete:
  "map_lookup (map_delete t m) k = (if k = t then None else map_lookup m k)"
  by (induction m) auto

lemma map_delete_absent: "map_lookup m t = None \<Longrightarrow> map_delete t m = m"
  by (induction m) (auto split: if_splits)

lemma map_store_fresh: "t \<notin> fst ` set m \<Longrightarrow> map_store t b m = m @ [(t, b)]"
  by (induction m) auto

subsection \<open>The calls on the device\<close>

lemma running_from_snoc:
  "running_from r (cs @ [c]) =
     (case c of DStart \<Rightarrow> True | DStop \<Rightarrow> False | _ \<Rightarrow> running_from r cs)"
proof (induction cs arbitrary: r)
  case Nil
  show ?case by (cases c) simp_all
next
  case (Cons a cs)
  show ?case using Cons.IH by (cases a; cases c; simp)
qed

lemma alternates_from_snoc:
  "alternates_from r (cs @ [c]) \<longleftrightarrow>
     alternates_from r cs
     \<and> (case c of DStart \<Rightarrow> \<not> running_from r cs | DStop \<Rightarrow> running_from r cs | _ \<Rightarrow> True)"
proof (induction cs arbitrary: r)
  case Nil
  show ?case by (cases c) simp_all
next
  case (Cons a cs)
  show ?case using Cons.IH by (cases a; cases c; simp)
qed

subsection \<open>Buffers\<close>

lemma data_Buffer_Close [simp]: "data (Buffer_Close b) = data b"
  by (simp add: Buffer_Close_def)

lemma closed_Buffer_Close [simp]: "closed (Buffer_Close b)"
  by (simp add: Buffer_Close_def)

lemma closed_Buffer_Write [simp]: "closed (Buffer_Write p b) = closed b"
  by (simp add: Buffer_Write_def)

lemma data_Buffer_Write: "data (Buffer_Write p b) = (if closed b then data b else data b @ [p])"
  by (simp add: Buffer_Write_def)

subsection \<open>CloseTrack\<close>

lemma tracks_CloseTrack: "tracks (CloseTrack t ms) = map_delete t (tracks ms)"
  by (simp add: CloseTrack_def Let_def map_delete_absent split: option.splits)

lemma loops_CloseTrack: "loops (CloseTrack t ms) = loops ms"
  by (simp add: CloseTrack_def Let_def split: option.splits)

lemma device_CloseTrack:
  "device (CloseTrack t ms) =
     (if map_lookup (tracks ms) t \<noteq> None \<and> map_delete t (tracks ms) = []
      then device ms @ [DStop] else device ms)"
  by (simp add: CloseTrack_def Let_def split: option.splits)

lemma heap_CloseTrack:
  "heap (CloseTrack t ms) =
     (case map_lookup (tracks ms) t of
        None \<Rightarrow> heap ms
      | Some b \<Rightarrow> (heap ms)[b := Buffer_Close (heap ms ! b)])"
  by (simp add: CloseTrack_def Let_def split: option.splits)

lemma length_heap_CloseTrack: "length (heap (CloseTrack t ms)) = length (heap ms)"
  by (simp add: heap_CloseTrack split: option.splits)

lemma data_update_Close: "data ((h[b := Buffer_Close (h ! b)]) ! i) = data (h ! i)"
  by (cases "b < length h") (simp_all add: nth_list_update list_update_beyond)

lemma data_heap_CloseTrack: "data (heap (CloseTrack t ms) ! i) = data (heap ms ! i)"
  by (simp add: heap_CloseTrack data_update_Close split: option.splits)

lemma wf_CloseTrack:
  assumes "well_formed ms"
  shows "well_formed (CloseTrack t ms)"
proof -
  have "k = H264VideoTrack b \<and> b < length (heap (CloseTrack t ms))
            \<and> \<not> closed (heap (CloseTrack t ms) ! b)"
    if mem: "(k, b) \<in> set (tracks ms)" and ne: "k \<noteq> t" for k b
  proof -
    from assms mem have kb: "k = H264VideoTrack b" "b < length (heap ms)" "\<not> closed (heap ms ! b)"
      by (auto simp: well_formed_def list_all_iff)
    show ?thesis
    proof (cases "map_lookup (tracks ms) t")
      case None
      with kb show ?thesis by (simp add: heap_CloseTrack)
    next
      case (Some b')
      then have "(t, b') \<in> set (tracks ms)" by (rule map_lookup_mem)
      with assms have "t = H264VideoTrack b'" by (auto simp: well_formed_def list_all_iff)
      with ne kb have "b' \<noteq> b" by auto
      with kb Some show ?thesis by (simp add: heap_CloseTrack)
    qed
  qed
  then have "list_all (\<lambda>(k, b). k = H264VideoTrack b \<and> b < length (heap (CloseTrack t ms))
            \<and> \<not> closed (heap (CloseTrack t ms) ! b)) (map_delete t (tracks ms))"
    by (auto simp: list_all_iff map_delete_filter)
  with assms show ?thesis
    by (auto simp: well_formed_def tracks_CloseTrack loops_CloseTrack map_delete_filter distinct_map_filter)
qed

lemma dev_inv_CloseTrack:
  assumes "dev_inv ms"
  shows "dev_inv (CloseTrack t ms)"
proof (cases "map_lookup (tracks ms) t")
  case None
  then show ?thesis using assms by (simp add: CloseTrack_def)
next
  case (Some b)
  then have "tracks ms \<noteq> []" by auto
  with assms Some show ?thesis
    by (auto simp: dev_inv_def tracks_CloseTrack device_CloseTrack dev_running_def
        no_double_start_stop_def running_from_snoc alternates_from_snoc)
qed


subsection \<open>GetTrack\<close>

lemma wf_fresh_key:
  assumes "well_formed ms"
  shows "H264VideoTrack (length (heap ms)) \<notin> fst ` set (tracks ms)"
proof
  assume "H264VideoTrack (length (heap ms)) \<in> fst ` set (tracks ms)"
  then obtain b where "(H264VideoTrack (length (heap ms)), b) \<in> set (tracks ms)" by auto
  with assms have "H264VideoTrack (length (heap ms)) = H264VideoTrack b \<and> b < length (heap ms)"
    by (auto simp: well_formed_def list_all_iff)
  then show False by auto
qed

lemma GetTrack_wf_eq:
  assumes "well_formed ms"
  shows "GetTrack ms =
    (H264VideoTrack (length (heap ms)),
     ms\<lparr>heap := heap ms @ [NewBuffer],
        tracks := tracks ms @ [(H264VideoTrack (length (heap ms)), length (heap ms))],
        device := (if tracks ms = [] then device ms @ [DStart] else device ms),
        loops := (if tracks ms = [] then loops ms + 1 else loops ms)\<rparr>)"
proof -
  have len: "length (tracks ms) = 0 \<longleftrightarrow> tracks ms = []" by simp
  show ?thesis
    using wf_fresh_key [OF assms]
    by (cases "tracks ms = []")
       (simp_all add: GetTrack_def Let_def NewH264VideoTrack_def map_store_fresh)
qed

lemma wf_GetTrack:
  assumes "well_formed ms"
  shows "well_formed (snd (GetTrack ms))"
proof -
  have "list_all (\<lambda>(t, b). t = H264VideoTrack b \<and> b < Suc (length (heap ms))
            \<and> \<not> closed ((heap ms @ [NewBuffer]) ! b)) (tracks ms)"
    using assms by (auto simp: well_formed_def list_all_iff nth_append)
  with assms wf_fresh_key [OF assms] show ?thesis
    by (auto simp: GetTrack_wf_eq well_formed_def NewBuffer_def)
qed

lemma dev_inv_GetTrack:
  assumes "well_formed ms" and "dev_inv ms"
  shows "dev_inv (snd (GetTrack ms))"
  using assms(2)
  by (auto simp: GetTrack_wf_eq [OF assms(1)] dev_inv_def dev_running_def
      no_double_start_stop_def running_from_snoc alternates_from_snoc)

subsection \<open>CloseTracks\<close>

lemma tracks_CloseTracks:
  "tracks (CloseTracks ts ms) = filter (\<lambda>p. fst p \<notin> set ts) (tracks ms)"
proof (induction ts arbitrary: ms)
  case Nil
  show ?case by simp
next
  case (Cons t ts)
  have "filter (\<lambda>p. fst p \<notin> set ts) (filter (\<lambda>p. fst p \<noteq> t) (tracks ms))
        = filter (\<lambda>p. fst p \<notin> set (t # ts)) (tracks ms)"
    by (auto intro: filter_cong)
  then show ?case by (simp add: Cons.IH tracks_CloseTrack map_delete_filter)
qed

lemma tracks_closeAll: "tracks (closeAll ms) = []"
  by (simp add: closeAll_def tracks_CloseTracks filter_empty_conv)

lemma loops_CloseTracks: "loops (CloseTracks ts ms) = loops ms"
  by (induction ts arbitrary: ms) (simp_all add: loops_CloseTrack)

lemma length_heap_CloseTracks: "length (heap (CloseTracks ts ms)) = length (heap ms)"
  by (induction ts arbitrary: ms) (simp_all add: length_heap_CloseTrack)

lemma data_heap_CloseTracks: "data (heap (CloseTracks ts ms) ! i) = data (heap ms ! i)"
  by (induction ts arbitrary: ms) (simp_all add: data_heap_CloseTrack)

lemma wf_CloseTracks: "well_formed ms \<Longrightarrow> well_formed (CloseTracks ts ms)"
  by (induction ts arbitrary: ms) (simp_all add: wf_CloseTrack)

lemma dev_inv_CloseTracks: "dev_inv ms \<Longrightarrow> dev_inv (CloseTracks ts ms)"
  by (induction ts arbitrary: ms) (simp_all add: dev_inv_CloseTrack)

lemma device_CloseTracks:
  "device (CloseTracks ts ms) =
     (if tracks ms \<noteq> [] \<and> fst ` set (tracks ms) \<subseteq> set ts
      then device ms @ [DStop] else device ms)"
proof (induction ts arbitrary: ms)
  case Nil
  show ?case by (cases "tracks ms") simp_all
next
  case (Cons t ts)
  let ?ms1 = "CloseTrack t ms"
  have keys: "fst ` set (tracks ?ms1) = fst ` set (tracks ms) - {t}"
    by (auto simp: tracks_CloseTrack map_delete_filter)
  show ?case
  proof (cases "map_lookup (tracks ms) t")
    case None
    then have "?ms1 = ms" by (simp add: CloseTrack_def)
    moreover from None have "t \<notin> fst ` set (tracks ms)" by (simp add: map_lookup_None_iff)
    ultimately show ?thesis by (auto simp: Cons.IH)
  next
    case (Some b)
    then have ne: "tracks ms \<noteq> []" by auto
    show ?thesis
    proof (cases "map_delete t (tracks ms) = []")
      case True
      then have "fst ` set (tracks ms) \<subseteq> {t}"
        by (auto simp: map_delete_filter filter_empty_conv)
      with True Some ne show ?thesis
        by (auto simp: Cons.IH tracks_CloseTrack device_CloseTrack)
    next
      case False
      with Some ne keys show ?thesis
        by (auto simp: Cons.IH tracks_CloseTrack device_CloseTrack)
    qed
  qed
qed

lemma device_closeAll:
  "device (closeAll ms) = (if tracks ms = [] then device ms else device ms @ [DStop])"
  by (simp add: closeAll_def device_CloseTracks)

lemma closed_heap_CloseTracks:
  assumes "\<forall>(t, b) \<in> set (tracks ms). b < length (heap ms)"
    and "i < length (heap ms)"
  shows "closed (heap (CloseTracks ts ms) ! i) \<longleftrightarrow>
           closed (heap ms ! i) \<or> (\<exists>t \<in> set ts. map_lookup (tracks ms) t = Some i)"
  using assms
proof (induction ts arbitrary: ms)
  case Nil
  show ?case by simp
next
  case (Cons t ts)
  let ?ms1 = "CloseTrack t ms"
  have 1: "\<forall>(t, b) \<in> set (tracks ?ms1). b < length (heap ?ms1)"
    using Cons.prems(1) by (auto simp: tracks_CloseTrack map_delete_filter length_heap_CloseTrack)
  have 2: "i < length (heap ?ms1)"
    using Cons.prems(2) by (simp add: length_heap_CloseTrack)
  have 3: "closed (heap ?ms1 ! i) \<longleftrightarrow> closed (heap ms ! i) \<or> map_lookup (tracks ms) t = Some i"
  proof (cases "map_lookup (tracks ms) t")
    case None
    then show ?thesis by (simp add: heap_CloseTrack)
  next
    case (Some b)
    then have "(t, b) \<in> set (tracks ms)" by (rule map_lookup_mem)
    with Cons.prems(1) have "b < length (heap ms)" by auto
    with Some show ?thesis by (auto simp: heap_CloseTrack nth_list_update)
  qed
  show ?case
    by (auto simp: Cons.IH [OF 1 2] 3 tracks_CloseTrack map_lookup_delete)
qed

subsection \<open>writeAll\<close>

lemma length_writeAll [simp]: "length (writeAll p m h) = length h"
  by (induction m arbitrary: h) auto

lemma closed_update_Write: "closed ((h[b := Buffer_Write p (h ! b)]) ! i) = closed (h ! i)"
  by (cases "b < length h") (simp_all add: nth_list_update list_update_beyond)

lemma closed_writeAll: "closed (writeAll p m h ! i) = closed (h ! i)"
proof (induction m arbitrary: h)
  case Nil
  show ?case by simp
next
  case (Cons a m)
  obtain t b where a: "a = (t, b)" by (cases a)
  have "closed (writeAll p (a # m) h ! i) = closed ((h[b := Buffer_Write p (h ! b)]) ! i)"
    unfolding a writeAll.simps by (rule Cons.IH)
  also have "\<dots> = closed (h ! i)" by (rule closed_update_Write)
  finally show ?case .
qed

lemma nth_writeAll:
  assumes "distinct (map snd m)" and "i < length h"
  shows "writeAll p m h ! i = (if i \<in> snd ` set m then Buffer_Write p (h ! i) else h ! i)"
  using assms
proof (induction m arbitrary: h)
  case Nil
  show ?case by simp
next
  case (Cons a m)
  obtain t b where a: "a = (t, b)" by (cases a)
  from Cons.prems have d: "distinct (map snd m)" and nb: "b \<notin> snd ` set m" by (auto simp: a)
  have len: "i < length (h[b := Buffer_Write p (h ! b)])" using Cons.prems(2) by simp
  have ne: "i \<noteq> b" if "i \<in> snd ` set m" using that nb by auto
  show ?case
  proof (cases "i \<in> snd ` set m")
    case True
    with ne have "i \<noteq> b" by simp
    with True Cons.prems(2) show ?thesis by (simp add: a Cons.IH [OF d len])
  next
    case False
    with Cons.prems(2) show ?thesis by (simp add: a Cons.IH [OF d len] nth_list_update)
  qed
qed

lemma wf_distinct_snd:
  assumes "well_formed ms"
  shows "distinct (map snd (tracks ms))"
proof -
  have eq: "map fst (tracks ms) = map H264VideoTrack (map snd (tracks ms))"
    using assms by (auto simp: well_formed_def list_all_iff)
  have "distinct (map fst (tracks ms))" using assms by (simp add: well_formed_def)
  then have "distinct (map H264VideoTrack (map snd (tracks ms)))" by (simp only: eq)
  then show ?thesis
    using distinct_map [of H264VideoTrack "map snd (tracks ms)"] by blast
qed

subsection \<open>readLoop\<close>

lemma readLoop_iter_ReadOk:
  "readLoop_iter (ReadOk p) ms =
     (Running, ms\<lparr>device := device ms @ [DRead], heap := writeAll p (tracks ms) (heap ms)\<rparr>)"
  by (simp add: readLoop_iter_def)

lemma readLoop_iter_ReadErr:
  "readLoop_iter ReadErr ms = (Returned, closeAll (ms\<lparr>device := device ms @ [DRead]\<rparr>))"
  by (simp add: readLoop_iter_def)

lemma wf_device_update: "well_formed (ms\<lparr>device := d\<rparr>) = well_formed ms"
  by (simp add: well_formed_def)

lemma wf_closeAll: "well_formed ms \<Longrightarrow> well_formed (closeAll ms)"
  by (simp add: closeAll_def wf_CloseTracks)

lemma wf_writeAll:
  assumes "well_formed ms"
  shows "well_formed (ms\<lparr>heap := writeAll p (tracks ms) (heap ms)\<rparr>)"
  using assms by (simp add: well_formed_def closed_writeAll)

lemma wf_loops_dec:
  assumes "well_formed ms" and "tracks ms = []"
  shows "well_formed (ms\<lparr>loops := n\<rparr>)"
  using assms by (simp add: well_formed_def)

lemma wf_step:
  assumes "well_formed ms"
  shows "well_formed (step ms e)"
proof (cases e)
  case EvGetTrack
  with assms show ?thesis by (simp add: wf_GetTrack)
next
  case (EvCloseTrack t)
  with assms show ?thesis by (simp add: wf_CloseTrack)
next
  case (EvClose r)
  with assms show ?thesis by (simp add: Close_def Let_def wf_device_update wf_closeAll)
next
  case (EvRead r)
  show ?thesis
  proof (cases r)
    case (ReadOk p)
    have "well_formed (ms\<lparr>heap := writeAll p (tracks ms) (heap ms)\<rparr>)" by (rule wf_writeAll [OF assms])
    then have "well_formed (ms\<lparr>device := device ms @ [DRead], heap := writeAll p (tracks ms) (heap ms)\<rparr>)"
      by (simp add: well_formed_def)
    with assms EvRead ReadOk show ?thesis by (simp add: readLoop_iter_ReadOk)
  next
    case ReadErr
    have "well_formed (closeAll (ms\<lparr>device := device ms @ [DRead]\<rparr>))"
      using assms by (simp add: wf_closeAll wf_device_update)
    then have "well_formed (closeAll (ms\<lparr>device := device ms @ [DRead]\<rparr>)\<lparr>loops := n\<rparr>)" for n
      by (rule wf_loops_dec) (rule tracks_closeAll)
    with assms EvRead ReadErr show ?thesis by (simp add: readLoop_iter_ReadErr)
  qed
qed

lemma wf_run: "well_formed ms \<Longrightarrow> well_formed (run ms es)"
  by (induction es arbitrary: ms) (simp_all add: wf_step)

lemma dev_inv_closeAll: "dev_inv ms \<Longrightarrow> dev_inv (closeAll ms)"
  by (simp add: closeAll_def dev_inv_CloseTracks)

lemma dev_inv_snoc_other:
  assumes "dev_inv ms" and "c \<noteq> DStart" and "c \<noteq> DStop"
  shows "dev_inv (ms\<lparr>device := device ms @ [c]\<rparr>)"
  using assms
  by (cases c) (simp_all add: dev_inv_def dev_running_def no_double_start_stop_def
      running_from_snoc alternates_from_snoc)

lemma dev_inv_heap_update: "dev_inv (ms\<lparr>heap := h\<rparr>) = dev_inv ms"
  by (simp add: dev_inv_def)

lemma dev_inv_loops_update: "dev_inv (ms\<lparr>loops := n\<rparr>) = dev_inv ms"
  by (simp add: dev_inv_def)

lemma dev_inv_step:
  assumes "well_formed ms" and "dev_inv ms"
  shows "dev_inv (step ms e)"
proof (cases e)
  case EvGetTrack
  with assms show ?thesis by (simp add: dev_inv_GetTrack)
next
  case (EvCloseTrack t)
  with assms show ?thesis by (simp add: dev_inv_CloseTrack)
next
  case (EvClose r)
  have "dev_inv (closeAll ms)" using assms(2) by (rule dev_inv_closeAll)
  then have "dev_inv ((closeAll ms)\<lparr>device := device (closeAll ms) @ [DClose]\<rparr>)"
    by (rule dev_inv_snoc_other) simp_all
  with EvClose show ?thesis by (simp add: Close_def Let_def)
next
  case (EvRead r)
  have rd: "dev_inv (ms\<lparr>device := device ms @ [DRead]\<rparr>)"
    using assms(2) by (rule dev_inv_snoc_other) simp_all
  show ?thesis
  proof (cases r)
    case (ReadOk p)
    from rd have "dev_inv (ms\<lparr>device := device ms @ [DRead], heap := writeAll p (tracks ms) (heap ms)\<rparr>)"
      by (simp add: dev_inv_def)
    with assms EvRead ReadOk show ?thesis by (simp add: readLoop_iter_ReadOk)
  next
    case ReadErr
    from rd have "dev_inv (closeAll (ms\<lparr>device := device ms @ [DRead]\<rparr>))"
      by (rule dev_inv_closeAll)
    with assms EvRead ReadErr show ?thesis
      by (simp add: readLoop_iter_ReadErr dev_inv_loops_update)
  qed
qed

lemma inv_run: "well_formed ms \<Longrightarrow> dev_inv ms \<Longrightarrow> well_formed (run ms es) \<and> dev_inv (run ms es)"
  by (induction es arbitrary: ms) (simp_all add: wf_step dev_inv_step)

lemma NewV4L2MediaSource_Some:
  assumes "NewV4L2MediaSource env filename width height bitrate hflip vflip = (cs, Some ms, err)"
  shows "tracks ms = [] \<and> heap ms = [] \<and> loops ms = 0 \<and> device ms = cs
         \<and> DStart \<notin> set cs \<and> DStop \<notin> set cs"
proof -
  let ?cfg = "\<lparr>Width = width, Height = height, Format = V4L2_PIX_FMT_H264,
               RepeatSequenceHeader = True\<rparr>"
  show ?thesis
    using assms
    by (cases "Open_err env filename ?cfg"; cases "SetBitrate_err env bitrate";
        cases hflip; cases vflip; cases "FlipHorizontal_err env"; cases "FlipVertical_err env")
       (auto simp: NewV4L2MediaSource_def Let_def)
qed

lemma running_from_no_start: "DStart \<notin> set cs \<Longrightarrow> running_from r cs \<longleftrightarrow> r \<and> DStop \<notin> set cs"
proof (induction cs arbitrary: r)
  case Nil
  show ?case by simp
next
  case (Cons a cs)
  then show ?case by (cases a) auto
qed

lemma alternates_from_no_start_stop:
  "DStart \<notin> set cs \<Longrightarrow> DStop \<notin> set cs \<Longrightarrow> alternates_from r cs"
proof (induction cs arbitrary: r)
  case Nil
  show ?case by simp
next
  case (Cons a cs)
  then show ?case by (cases a) auto
qed

lemma inv_NewV4L2MediaSource:
  assumes "NewV4L2MediaSource env filename width height bitrate hflip vflip = (cs, Some ms, err)"
  shows "well_formed ms \<and> dev_inv ms"
  using NewV4L2MediaSource_Some [OF assms]
  by (simp add: well_formed_def dev_inv_def dev_running_def no_double_start_stop_def
      running_from_no_start alternates_from_no_start_stop)

lemma inv_reachable:
  assumes "NewV4L2MediaSource env filename width height bitrate hflip vflip = (cs, Some ms, err)"
  shows "well_formed (run ms es) \<and> dev_inv (run ms es)"
  using inv_NewV4L2MediaSource [OF assms] inv_run by blast

subsection \<open>What one step does to the data of a buffer\<close>

lemma wf_mem:
  assumes "well_formed ms" and "(t, b) \<in> set (tracks ms)"
  shows "t = H264VideoTrack b" and "b < length (heap ms)" and "\<not> closed (heap ms ! b)"
  using assms by (auto simp: well_formed_def list_all_iff)

lemma wf_loops: "well_formed ms \<Longrightarrow> tracks ms \<noteq> [] \<Longrightarrow> 0 < loops ms"
  by (simp add: well_formed_def)

lemma heap_closeAll_data: "data (heap (closeAll ms) ! i) = data (heap ms ! i)"
  by (simp add: closeAll_def data_heap_CloseTracks)

lemma loops_closeAll: "loops (closeAll ms) = loops ms"
  by (simp add: closeAll_def loops_CloseTracks)

lemma length_heap_closeAll: "length (heap (closeAll ms)) = length (heap ms)"
  by (simp add: closeAll_def length_heap_CloseTracks)

lemma step_ReadOk:
  "step ms (EvRead (ReadOk p)) =
     (if loops ms = 0 then ms
      else ms\<lparr>device := device ms @ [DRead], heap := writeAll p (tracks ms) (heap ms)\<rparr>)"
  by (simp add: readLoop_iter_ReadOk)

lemma step_ReadErr:
  "step ms (EvRead ReadErr) =
     (if loops ms = 0 then ms
      else (closeAll (ms\<lparr>device := device ms @ [DRead]\<rparr>))
             \<lparr>loops := loops (closeAll (ms\<lparr>device := device ms @ [DRead]\<rparr>)) - 1\<rparr>)"
  by (simp add: readLoop_iter_ReadErr)

lemma step_Close:
  "step ms (EvClose r) = (closeAll ms)\<lparr>device := device (closeAll ms) @ [DClose]\<rparr>"
  by (simp add: Close_def Let_def)

lemma length_heap_step: "well_formed ms \<Longrightarrow> length (heap ms) \<le> length (heap (step ms e))"
proof (cases e)
  case (EvRead r)
  then show ?thesis
    by (cases r) (simp_all add: step_ReadOk step_ReadErr length_heap_closeAll del: step.simps)
qed (simp_all add: GetTrack_def Let_def length_heap_CloseTrack Close_def length_heap_closeAll)

lemma dead_step:
  assumes wf: "well_formed ms" and b: "b < length (heap ms)" and dead: "b \<notin> snd ` set (tracks ms)"
  shows "b \<notin> snd ` set (tracks (step ms e)) \<and> data (heap (step ms e) ! b) = data (heap ms ! b)"
proof (cases e)
  case EvGetTrack
  with b dead show ?thesis by (simp add: GetTrack_wf_eq [OF wf] nth_append)
next
  case (EvCloseTrack t)
  with dead show ?thesis
    by (auto simp: tracks_CloseTrack map_delete_filter data_heap_CloseTrack)
next
  case (EvClose r)
  then show ?thesis by (simp add: step_Close tracks_closeAll heap_closeAll_data del: step.simps)
next
  case (EvRead r)
  show ?thesis
  proof (cases r)
    case (ReadOk p)
    with EvRead b dead show ?thesis
      by (simp add: step_ReadOk nth_writeAll [OF wf_distinct_snd [OF wf]] del: step.simps)
  next
    case ReadErr
    with EvRead dead show ?thesis
      by (simp add: step_ReadErr tracks_closeAll heap_closeAll_data del: step.simps)
  qed
qed

lemma dead_run:
  assumes "well_formed ms" and "b < length (heap ms)" and "b \<notin> snd ` set (tracks ms)"
  shows "data (heap (run ms es) ! b) = data (heap ms ! b)"
  using assms
proof (induction es arbitrary: ms)
  case Nil
  show ?case by simp
next
  case (Cons e es)
  have 1: "well_formed (step ms e)" using Cons.prems(1) by (rule wf_step)
  have 2: "b < length (heap (step ms e))"
    using Cons.prems(2) length_heap_step [OF Cons.prems(1), of e] by simp
  have 3: "b \<notin> snd ` set (tracks (step ms e))"
    and 4: "data (heap (step ms e) ! b) = data (heap ms ! b)"
    using dead_step [OF Cons.prems] by simp_all
  show ?case using Cons.IH [OF 1 2 3] 4 by simp
qed

lemma alive_run:
  assumes "well_formed ms" and "(t, b) \<in> set (tracks ms)"
  shows "data (heap (run ms es) ! b) = data (heap ms ! b) @ chunks_while_open t es"
  using assms
proof (induction es arbitrary: ms)
  case Nil
  show ?case by simp
next
  case (Cons e es)
  note wf = Cons.prems(1) and mem = Cons.prems(2)
  note tb = wf_mem [OF wf mem]
  have wf': "well_formed (step ms e)" using wf by (rule wf_step)
  have len': "b < length (heap (step ms e))"
    using tb(2) length_heap_step [OF wf, of e] by simp
  have ne: "tracks ms \<noteq> []" using mem by auto
  have lp: "loops ms \<noteq> 0" using wf_loops [OF wf ne] by simp
  show ?case
  proof (cases e)
    case EvGetTrack
    have "(t, b) \<in> set (tracks (step ms e))"
      using mem by (simp add: EvGetTrack GetTrack_wf_eq [OF wf])
    moreover have "data (heap (step ms e) ! b) = data (heap ms ! b)"
      using tb(2) by (simp add: EvGetTrack GetTrack_wf_eq [OF wf] nth_append)
    ultimately show ?thesis using Cons.IH [OF wf'] by (simp add: EvGetTrack)
  next
    case (EvCloseTrack t')
    have d: "data (heap (step ms e) ! b) = data (heap ms ! b)"
      by (simp add: EvCloseTrack data_heap_CloseTrack)
    show ?thesis
    proof (cases "t' = t")
      case True
      have "b \<notin> snd ` set (tracks (step ms e))"
      proof
        assume "b \<in> snd ` set (tracks (step ms e))"
        then obtain k where k: "(k, b) \<in> set (tracks ms)" "k \<noteq> t"
          by (auto simp: EvCloseTrack True tracks_CloseTrack map_delete_filter)
        from wf_mem(1) [OF wf k(1)] tb(1) k(2) show False by simp
      qed
      from dead_run [OF wf' len' this] d show ?thesis
        by (simp add: EvCloseTrack True)
    next
      case False
      then have "(t, b) \<in> set (tracks (step ms e))"
        using mem by (simp add: EvCloseTrack tracks_CloseTrack map_delete_filter)
      from Cons.IH [OF wf' this] d False show ?thesis by (simp add: EvCloseTrack)
    qed
  next
    case (EvClose r)
    have "b \<notin> snd ` set (tracks (step ms e))"
      by (simp add: EvClose step_Close tracks_closeAll del: step.simps)
    moreover have "data (heap (step ms e) ! b) = data (heap ms ! b)"
      by (simp add: EvClose step_Close heap_closeAll_data del: step.simps)
    ultimately show ?thesis using dead_run [OF wf' len'] by (simp add: EvClose)
  next
    case (EvRead r)
    show ?thesis
    proof (cases r)
      case (ReadOk p)
      have "(t, b) \<in> set (tracks (step ms e))"
        using mem lp by (simp add: EvRead ReadOk step_ReadOk del: step.simps)
      moreover have "data (heap (step ms e) ! b) = data (heap ms ! b) @ [p]"
        using mem lp tb(2,3)
        by (simp add: EvRead ReadOk step_ReadOk nth_writeAll [OF wf_distinct_snd [OF wf]]
            data_Buffer_Write rev_image_eqI del: step.simps)
      ultimately show ?thesis using Cons.IH [OF wf'] by (simp add: EvRead ReadOk)
    next
      case ReadErr
      have "b \<notin> snd ` set (tracks (step ms e))"
        using lp by (simp add: EvRead ReadErr step_ReadErr tracks_closeAll del: step.simps)
      moreover have "data (heap (step ms e) ! b) = data (heap ms ! b)"
        using lp by (simp add: EvRead ReadErr step_ReadErr heap_closeAll_data del: step.simps)
      ultimately show ?thesis using dead_run [OF wf' len'] by (simp add: EvRead ReadErr)
    qed
  qed
qed

lemma received_after_GetTrack:
  assumes "well_formed ms" and "GetTrack ms = (t, ms1)"
  shows "received (run ms1 es) t = chunks_while_open t es"
proof -
  let ?b = "length (heap ms)"
  have ms1: "ms1 = snd (GetTrack ms)" using assms(2) by simp
  have "t = fst (GetTrack ms)" using assms(2) by simp
  then have t: "t = H264VideoTrack ?b" by (simp add: GetTrack_wf_eq [OF assms(1)])
  have wf1: "well_formed ms1" unfolding ms1 using assms(1) by (rule wf_GetTrack)
  have mem: "(t, ?b) \<in> set (tracks ms1)"
    by (simp add: ms1 t GetTrack_wf_eq [OF assms(1)])
  have "data (heap ms1 ! ?b) = []"
    by (simp add: ms1 GetTrack_wf_eq [OF assms(1)] NewBuffer_def)
  with alive_run [OF wf1 mem, of es] show ?thesis
    by (simp add: received_def t)
qed

lemma writes_of_iteration:
  assumes "well_formed ms"
  shows "fst (readLoop_iter (ReadOk p) ms) = Running
    \<and> tracks (snd (readLoop_iter (ReadOk p) ms)) = tracks ms
    \<and> (\<forall>(t, b) \<in> set (tracks ms).
          heap (snd (readLoop_iter (ReadOk p) ms)) ! b
            = (heap ms ! b)\<lparr>data := data (heap ms ! b) @ [p]\<rparr>)
    \<and> (\<forall>b < length (heap ms). b \<notin> snd ` set (tracks ms) \<longrightarrow>
          heap (snd (readLoop_iter (ReadOk p) ms)) ! b = heap ms ! b)"
proof -
  have "heap (snd (readLoop_iter (ReadOk p) ms)) ! b
          = (heap ms ! b)\<lparr>data := data (heap ms ! b) @ [p]\<rparr>"
    if "(t, b) \<in> set (tracks ms)" for t b
    using wf_mem [OF assms that] that
    by (simp add: readLoop_iter_ReadOk nth_writeAll [OF wf_distinct_snd [OF assms]]
        Buffer_Write_def rev_image_eqI)
  then show ?thesis
    by (auto simp: readLoop_iter_ReadOk nth_writeAll [OF wf_distinct_snd [OF assms]])
qed

subsection \<open>Evaluation of the examples\<close>

lemma example_source_new:
  "NewV4L2MediaSource (example_env None None) ''/dev/video0'' 640 480 1000000 False False
     = (device example_source, Some example_source, None)"
  by (simp add: NewV4L2MediaSource_def Let_def example_env_def example_source_def example_cfg_def)

lemmas example_defs =
  example_source_def example_cfg_def chunk_A_def chunk_B_def chunk_C_def

lemmas exec_defs =
  GetTrack_def CloseTrack_def closeAll_def Close_def readLoop_iter_def Let_def
  NewBuffer_def NewH264VideoTrack_def Buffer_Write_def Buffer_Close_def
  received_def end_of_stream_def dev_running_def no_double_start_stop_def

subsection \<open>Start and stop at the size transitions\<close>

lemma same_key_length:
  assumes "distinct (map fst m)" and "\<forall>p \<in> set m. fst p = t"
  shows "length m \<le> 1"
proof (cases m)
  case Nil
  then show ?thesis by simp
next
  case (Cons x m')
  show ?thesis
  proof (cases m')
    case Nil
    with Cons show ?thesis by simp
  next
    case (Cons y m'')
    with \<open>m = x # m'\<close> assms have "fst x = t" "fst y = t" "fst x \<noteq> fst y" by auto
    then show ?thesis by simp
  qed
qed

lemma CloseTrack_stops_iff:
  assumes "well_formed ms"
  shows "(map_lookup (tracks ms) t \<noteq> None \<and> map_delete t (tracks ms) = [])
          \<longleftrightarrow> (length (tracks ms) = 1 \<and> length (tracks (CloseTrack t ms)) = 0)"
proof
  assume l: "map_lookup (tracks ms) t \<noteq> None \<and> map_delete t (tracks ms) = []"
  then have "\<forall>p \<in> set (tracks ms). fst p = t"
    by (auto simp: map_delete_filter filter_empty_conv)
  moreover have "distinct (map fst (tracks ms))" using assms by (simp add: well_formed_def)
  ultimately have "length (tracks ms) \<le> 1" by (rule same_key_length [rotated])
  moreover from l have "tracks ms \<noteq> []" by auto
  ultimately have "length (tracks ms) = 1" by (cases "tracks ms") auto
  with l show "length (tracks ms) = 1 \<and> length (tracks (CloseTrack t ms)) = 0"
    by (simp add: tracks_CloseTrack)
next
  assume r: "length (tracks ms) = 1 \<and> length (tracks (CloseTrack t ms)) = 0"
  then have d: "map_delete t (tracks ms) = []" by (simp add: tracks_CloseTrack)
  have "map_lookup (tracks ms) t \<noteq> None"
  proof
    assume "map_lookup (tracks ms) t = None"
    then have "map_delete t (tracks ms) = tracks ms" by (rule map_delete_absent)
    with d r show False by simp
  qed
  with d show "map_lookup (tracks ms) t \<noteq> None \<and> map_delete t (tracks ms) = []" by simp
qed

lemma device_CloseTrack_wf:
  assumes "well_formed ms"
  shows "device (CloseTrack t ms) =
     (if length (tracks ms) = 1 \<and> length (tracks (CloseTrack t ms)) = 0
      then device ms @ [DStop] else device ms)"
  using CloseTrack_stops_iff [OF assms, of t] by (simp add: device_CloseTrack)

lemma device_GetTrack_wf:
  assumes "well_formed ms"
  shows "device (snd (GetTrack ms)) =
           (if length (tracks ms) = 0 then device ms @ [DStart] else device ms)
         \<and> length (tracks (snd (GetTrack ms))) = length (tracks ms) + 1"
  by (simp add: GetTrack_wf_eq [OF assms])

subsection \<open>The read loop on its own\<close>

lemma readLoop_ok_prefix:
  "\<exists>ms1. readLoop (map ReadOk ps @ rs) ms = readLoop rs ms1
      \<and> tracks ms1 = tracks ms
      \<and> device ms1 = device ms @ replicate (length ps) DRead
      \<and> loops ms1 = loops ms
      \<and> length (heap ms1) = length (heap ms)"
proof (induction ps arbitrary: ms)
  case Nil
  show ?case by (intro exI [of _ ms]) simp
next
  case (Cons p ps)
  let ?ms' = "ms\<lparr>device := device ms @ [DRead], heap := writeAll p (tracks ms) (heap ms)\<rparr>"
  from Cons.IH [of ?ms'] obtain ms1 where
    "readLoop (map ReadOk ps @ rs) ?ms' = readLoop rs ms1"
    "tracks ms1 = tracks ms"
    "device ms1 = (device ms @ [DRead]) @ replicate (length ps) DRead"
    "loops ms1 = loops ms"
    "length (heap ms1) = length (heap ms)"
    by auto
  then show ?case
    by (intro exI [of _ ms1]) (simp add: readLoop_iter_ReadOk replicate_app_Cons_same)
qed

lemma running_from_reads: "running_from r (cs @ replicate n DRead) = running_from r cs"
proof (induction n)
  case 0
  show ?case by simp
next
  case (Suc n)
  have "cs @ replicate (Suc n) DRead = (cs @ replicate n DRead) @ [DRead]"
    by (simp add: replicate_append_same)
  then show ?case by (simp only: running_from_snoc dev_call.case Suc.IH)
qed

lemma readLoop_ReadErr:
  "readLoop (ReadErr # rest) ms = (Returned, closeAll (ms\<lparr>device := device ms @ [DRead]\<rparr>))"
  by (simp add: readLoop_iter_ReadErr)

lemma closed_heap_closeAll:
  assumes "distinct (map fst (tracks ms))"
    and "\<forall>(t, b) \<in> set (tracks ms). b < length (heap ms)"
    and "(t, b) \<in> set (tracks ms)"
  shows "closed (heap (closeAll ms) ! b)"
proof -
  from assms(2,3) have b: "b < length (heap ms)" by auto
  from assms(1,3) have "map_lookup (tracks ms) t = Some b" by (rule map_lookup_distinct)
  moreover from assms(3) have "t \<in> set (map fst (tracks ms))" by force
  ultimately show ?thesis
    unfolding closeAll_def closed_heap_CloseTracks [OF assms(2) b] by blast
qed

lemmas new_defs = NewV4L2MediaSource_def Let_def example_env_def example_cfg_def

section \<open>The claims\<close>

text \<open>
  Claim C1. In every state reached from a newly built source, an iteration of the read
  loop whose device read succeeds appends the chunk to the data of every buffer that the
  association map names at that moment, leaves every other buffer as it is, and goes on.
  Hence a track handed out by \<^verbatim>\<open>GetTrack\<close> receives, whatever calls and reads
  follow, exactly the chunks of the successful reads made while its association stands, in
  the order of the reads: a track opened before the first read receives every chunk, and a
  track opened after a chunk was delivered receives those read after it was added.
\<close>

theorem readLoop_fans_out:
  fixes ms0 es0
  defines "ms \<equiv> run ms0 es0"
  assumes new: "NewV4L2MediaSource env filename width height bitrate hflip vflip
                  = (cs, Some ms0, err)"
  shows "fst (readLoop_iter (ReadOk p) ms) = Running
    \<and> tracks (snd (readLoop_iter (ReadOk p) ms)) = tracks ms
    \<and> (\<forall>(t, b) \<in> set (tracks ms).
          heap (snd (readLoop_iter (ReadOk p) ms)) ! b
            = (heap ms ! b)\<lparr>data := data (heap ms ! b) @ [p]\<rparr>)
    \<and> (\<forall>b < length (heap ms). b \<notin> snd ` set (tracks ms) \<longrightarrow>
          heap (snd (readLoop_iter (ReadOk p) ms)) ! b = heap ms ! b)
    \<and> (\<forall>t ms1. GetTrack ms = (t, ms1) \<longrightarrow>
          received (run ms1 es) t = chunks_while_open t es)"
proof -
  have wf: "well_formed ms" unfolding ms_def using inv_reachable [OF new] by simp
  from writes_of_iteration [OF wf] received_after_GetTrack [OF wf]
  show ?thesis by blast
qed

theorem readLoop_fans_out_witness:
  "received (run (snd (GetTrack example_source))
       [EvRead (ReadOk chunk_A), EvGetTrack, EvRead (ReadOk chunk_B),
        EvRead (ReadOk chunk_C), EvRead ReadErr]) (H264VideoTrack 0)
     = [chunk_A, chunk_B, chunk_C]
   \<and> received (run (snd (GetTrack (run example_source [EvGetTrack, EvRead (ReadOk chunk_A)])))
       [EvRead (ReadOk chunk_B), EvRead (ReadOk chunk_C), EvRead ReadErr]) (H264VideoTrack 1)
     = [chunk_B, chunk_C]
   \<and> heap (snd (readLoop_iter (ReadOk chunk_B)
              (run example_source [EvGetTrack, EvRead (ReadOk chunk_A), EvGetTrack])))
     = [\<lparr>data = [chunk_A, chunk_B], closed = False\<rparr>, \<lparr>data = [chunk_B], closed = False\<rparr>]
   \<and> end_of_stream (run (snd (GetTrack example_source))
       [EvRead (ReadOk chunk_A), EvGetTrack, EvRead (ReadOk chunk_B),
        EvRead (ReadOk chunk_C), EvRead ReadErr]) (H264VideoTrack 0)
   \<and> end_of_stream (run (snd (GetTrack example_source))
       [EvRead (ReadOk chunk_A), EvGetTrack, EvRead (ReadOk chunk_B),
        EvRead (ReadOk chunk_C), EvRead ReadErr]) (H264VideoTrack 1)"
proof -
  have g0: "fst (GetTrack example_source) = H264VideoTrack 0"
    by (simp add: exec_defs example_defs)
  have g1: "fst (GetTrack (run example_source [EvGetTrack, EvRead (ReadOk chunk_A)]))
              = H264VideoTrack 1"
    by (simp add: exec_defs example_defs)
  have h2: "heap (run example_source [EvGetTrack, EvRead (ReadOk chunk_A), EvGetTrack])
              = [\<lparr>data = [chunk_A], closed = False\<rparr>, \<lparr>data = [], closed = False\<rparr>]"
    and t2: "tracks (run example_source [EvGetTrack, EvRead (ReadOk chunk_A), EvGetTrack])
              = [(H264VideoTrack 0, 0), (H264VideoTrack 1, 1)]"
    by (simp_all add: exec_defs example_defs)
  note a = readLoop_fans_out [OF example_source_new, where ?es0.0 = "[]" and es =
      "[EvRead (ReadOk chunk_A), EvGetTrack, EvRead (ReadOk chunk_B),
        EvRead (ReadOk chunk_C), EvRead ReadErr]"]
  note b = readLoop_fans_out [OF example_source_new,
      where ?es0.0 = "[EvGetTrack, EvRead (ReadOk chunk_A)]"
        and es = "[EvRead (ReadOk chunk_B), EvRead (ReadOk chunk_C), EvRead ReadErr]"]
  note c = readLoop_fans_out [OF example_source_new,
      where ?es0.0 = "[EvGetTrack, EvRead (ReadOk chunk_A), EvGetTrack]" and p = chunk_B]
  have 1: "received (run (snd (GetTrack example_source))
       [EvRead (ReadOk chunk_A), EvGetTrack, EvRead (ReadOk chunk_B),
        EvRead (ReadOk chunk_C), EvRead ReadErr]) (H264VideoTrack 0)
     = [chunk_A, chunk_B, chunk_C]"
    using a g0 by (simp add: prod_eq_iff)
  have 2: "received (run (snd (GetTrack (run example_source [EvGetTrack, EvRead (ReadOk chunk_A)])))
       [EvRead (ReadOk chunk_B), EvRead (ReadOk chunk_C), EvRead ReadErr]) (H264VideoTrack 1)
     = [chunk_B, chunk_C]"
    using b g1 by (simp add: prod_eq_iff del: run.simps)
  have 3: "heap (snd (readLoop_iter (ReadOk chunk_B)
              (run example_source [EvGetTrack, EvRead (ReadOk chunk_A), EvGetTrack])))
     = [\<lparr>data = [chunk_A, chunk_B], closed = False\<rparr>, \<lparr>data = [chunk_B], closed = False\<rparr>]"
    using c by (simp add: exec_defs example_defs)
  have 4: "end_of_stream (run (snd (GetTrack example_source))
       [EvRead (ReadOk chunk_A), EvGetTrack, EvRead (ReadOk chunk_B),
        EvRead (ReadOk chunk_C), EvRead ReadErr]) (H264VideoTrack 0)"
    and 5: "end_of_stream (run (snd (GetTrack example_source))
       [EvRead (ReadOk chunk_A), EvGetTrack, EvRead (ReadOk chunk_B),
        EvRead (ReadOk chunk_C), EvRead ReadErr]) (H264VideoTrack 1)"
    by (simp_all add: exec_defs example_defs)
  from 1 2 3 4 5 show ?thesis by (simp only: simp_thms)
qed

text \<open>
  Claim C2. In every state reached from a newly built source by calls of
  \<^verbatim>\<open>GetTrack\<close>, \<^verbatim>\<open>CloseTrack\<close> and \<^verbatim>\<open>Close\<close> and by iterations of the read
  loop, the device is running if and only if the association map is not empty, and the
  device was never started while running nor stopped while stopped. \<^verbatim>\<open>GetTrack\<close>
  starts the device exactly when the size of the map goes from 0 to 1, and
  \<^verbatim>\<open>CloseTrack\<close> stops it exactly when the size goes from 1 to 0.
\<close>

theorem device_runs_iff_tracks:
  fixes ms0 es
  defines "ms \<equiv> run ms0 es"
  assumes new: "NewV4L2MediaSource env filename width height bitrate hflip vflip
                  = (cs, Some ms0, err)"
  shows "(dev_running (device ms) \<longleftrightarrow> tracks ms \<noteq> [])
    \<and> no_double_start_stop (device ms)
    \<and> device (snd (GetTrack ms)) =
         (if length (tracks ms) = 0 then device ms @ [DStart] else device ms)
    \<and> length (tracks (snd (GetTrack ms))) = length (tracks ms) + 1
    \<and> device (CloseTrack t ms) =
         (if length (tracks ms) = 1 \<and> length (tracks (CloseTrack t ms)) = 0
          then device ms @ [DStop] else device ms)"
proof -
  have inv: "well_formed ms" "dev_inv ms" unfolding ms_def using inv_reachable [OF new] by simp_all
  from inv(2) have "(dev_running (device ms) \<longleftrightarrow> tracks ms \<noteq> [])"
    and "no_double_start_stop (device ms)"
    by (simp_all add: dev_inv_def)
  with device_GetTrack_wf [OF inv(1)] device_CloseTrack_wf [OF inv(1), of t]
  show ?thesis by simp
qed

theorem device_runs_iff_tracks_witness:
  "tracks (run example_source [EvGetTrack, EvGetTrack, EvCloseTrack (H264VideoTrack 0)])
      = [(H264VideoTrack 1, 1)]
   \<and> dev_running (device (run example_source
        [EvGetTrack, EvGetTrack, EvCloseTrack (H264VideoTrack 0)]))
   \<and> device (run example_source [EvGetTrack, EvGetTrack, EvCloseTrack (H264VideoTrack 0)])
      = device example_source @ [DStart]
   \<and> device (CloseTrack (H264VideoTrack 1)
        (run example_source [EvGetTrack, EvGetTrack, EvCloseTrack (H264VideoTrack 0)]))
      = device example_source @ [DStart, DStop]
   \<and> \<not> dev_running (device (run example_source
        [EvGetTrack, EvGetTrack, EvCloseTrack (H264VideoTrack 0),
         EvCloseTrack (H264VideoTrack 1)]))"
proof -
  let ?es = "[EvGetTrack, EvGetTrack, EvCloseTrack (H264VideoTrack 0)]"
  have t: "tracks (run example_source ?es) = [(H264VideoTrack 1, 1)]"
    and d: "device (run example_source ?es) = device example_source @ [DStart]"
    by (simp_all add: exec_defs example_defs)
  have t': "tracks (run example_source (?es @ [EvCloseTrack (H264VideoTrack 1)])) = []"
    by (simp add: exec_defs example_defs)
  note a = device_runs_iff_tracks [OF example_source_new, where es = ?es
      and t = "H264VideoTrack 1"]
  note b = device_runs_iff_tracks [OF example_source_new,
      where es = "?es @ [EvCloseTrack (H264VideoTrack 1)]"]
  have 1: "dev_running (device (run example_source ?es))" using a t by simp
  have 2: "device (CloseTrack (H264VideoTrack 1) (run example_source ?es))
             = device example_source @ [DStart, DStop]"
    using a t d by (simp add: tracks_CloseTrack)
  have 3: "\<not> dev_running (device (run example_source (?es @ [EvCloseTrack (H264VideoTrack 1)])))"
    using b t' by simp
  from t d 1 2 3 show ?thesis by simp
qed

text \<open>
  Claim C3, as the code has it. \<^verbatim>\<open>GetTrack\<close> has no error result and the source keeps
  no record of having been closed. After \<^verbatim>\<open>Close\<close> the association map is empty and
  the last call on the device is its \<^verbatim>\<open>Close\<close>; a following \<^verbatim>\<open>GetTrack\<close> does
  not fail: it returns a new track, associates it with a new open buffer, calls
  \<^verbatim>\<open>Start\<close> on the closed device and launches a read loop.
\<close>

theorem GetTrack_after_Close:
  fixes r ms
  defines "ms1 \<equiv> snd (Close r ms)"
  shows "fst (Close r ms) = r
   \<and> tracks ms1 = []
   \<and> device ms1 = device ms @ (if tracks ms = [] then [] else [DStop]) @ [DClose]
   \<and> GetTrack ms1 =
       (H264VideoTrack (length (heap ms1)),
        ms1\<lparr>heap := heap ms1 @ [NewBuffer],
            tracks := [(H264VideoTrack (length (heap ms1)), length (heap ms1))],
            device := device ms1 @ [DStart],
            loops := loops ms1 + 1\<rparr>)"
proof -
  have t: "tracks ms1 = []" by (simp add: ms1_def Close_def Let_def tracks_closeAll)
  have d: "device ms1 = device ms @ (if tracks ms = [] then [] else [DStop]) @ [DClose]"
    by (simp add: ms1_def Close_def Let_def device_closeAll)
  have g: "GetTrack ms1 =
       (H264VideoTrack (length (heap ms1)),
        ms1\<lparr>heap := heap ms1 @ [NewBuffer],
            tracks := [(H264VideoTrack (length (heap ms1)), length (heap ms1))],
            device := device ms1 @ [DStart],
            loops := loops ms1 + 1\<rparr>)"
    by (simp add: GetTrack_def Let_def NewH264VideoTrack_def t)
  from t d g show ?thesis by (simp add: Close_def Let_def)
qed

theorem GetTrack_after_Close_witness:
  "GetTrack (snd (Close None (snd (GetTrack example_source))))
     = (H264VideoTrack 1,
        \<lparr>device = device example_source @ [DStart, DStop, DClose, DStart],
         tracks = [(H264VideoTrack 1, 1)],
         heap = [\<lparr>data = [], closed = True\<rparr>, \<lparr>data = [], closed = False\<rparr>],
         loops = 2\<rparr>)"
  using GetTrack_after_Close [of None "snd (GetTrack example_source)"]
  by (simp add: exec_defs example_defs)

text \<open>
  Claim C3 as it was stated, that \<^verbatim>\<open>GetTrack\<close> fails after \<^verbatim>\<open>Close\<close>, does not
  hold: on the example source, with one track open when the source is closed, the next
  \<^verbatim>\<open>GetTrack\<close> returns a second track, registered in the map with an open buffer, and
  the device is started after it was closed.
\<close>

theorem GetTrack_after_Close_counterexample:
  "fst (GetTrack (snd (Close None (snd (GetTrack example_source))))) = H264VideoTrack 1
   \<and> snd (GetTrack (snd (Close None (snd (GetTrack example_source)))))
      = \<lparr>device = device example_source @ [DStart, DStop, DClose, DStart],
         tracks = [(H264VideoTrack 1, 1)],
         heap = [\<lparr>data = [], closed = True\<rparr>, \<lparr>data = [], closed = False\<rparr>],
         loops = 2\<rparr>"
  by (simp add: exec_defs example_defs)

text \<open>
  Claim C4. In every state reached from a newly built source, when a device read of the
  read loop fails, after any number of successful reads, the loop returns; every track that
  was associated is removed from the map and its buffer closed, the device is stopped
  through \<^verbatim>\<open>CloseTrack\<close> if there was a track, and the failed read is the last read of
  the loop, whatever the device would have answered afterwards. In an interleaved
  execution the failed read ends one of the live loops.
\<close>

theorem readLoop_read_error:
  fixes ms0 es ps rest
  defines "ms \<equiv> run ms0 es"
  defines "res \<equiv> readLoop (map ReadOk ps @ ReadErr # rest) ms"
  assumes new: "NewV4L2MediaSource env filename width height bitrate hflip vflip
                  = (cs, Some ms0, err)"
  shows "fst res = Returned
    \<and> tracks (snd res) = []
    \<and> (\<forall>(t, b) \<in> set (tracks ms). closed (heap (snd res) ! b))
    \<and> device (snd res) =
         device ms @ replicate (length ps + 1) DRead @ (if tracks ms = [] then [] else [DStop])
    \<and> \<not> dev_running (device (snd res))
    \<and> (0 < loops ms \<longrightarrow>
          tracks (step ms (EvRead ReadErr)) = []
          \<and> loops (step ms (EvRead ReadErr)) = loops ms - 1)"
proof -
  have inv: "well_formed ms" "dev_inv ms" unfolding ms_def using inv_reachable [OF new] by simp_all
  have lp: "tracks (step ms (EvRead ReadErr)) = []
          \<and> loops (step ms (EvRead ReadErr)) = loops ms - 1" if "0 < loops ms"
    using that
    by (simp add: step_ReadErr tracks_closeAll loops_closeAll del: step.simps)
  obtain ms1 where ms1: "readLoop (map ReadOk ps @ ReadErr # rest) ms = readLoop (ReadErr # rest) ms1"
    "tracks ms1 = tracks ms" "device ms1 = device ms @ replicate (length ps) DRead"
    "length (heap ms1) = length (heap ms)"
    using readLoop_ok_prefix [of ps "ReadErr # rest" ms] by auto
  let ?ms2 = "ms1\<lparr>device := device ms1 @ [DRead]\<rparr>"
  have res: "res = (Returned, closeAll ?ms2)"
    unfolding res_def ms1(1) by (rule readLoop_ReadErr)
  have d: "distinct (map fst (tracks ?ms2))" using inv(1) ms1(2) by (simp add: well_formed_def)
  have r: "\<forall>(t, b) \<in> set (tracks ?ms2). b < length (heap ?ms2)"
    using inv(1) ms1(2,4) by (auto simp: well_formed_def list_all_iff)
  have c: "closed (heap (snd res) ! b)" if "(t, b) \<in> set (tracks ms)" for t b
    unfolding res snd_conv
    by (rule closed_heap_closeAll [OF d r, of t]) (simp add: ms1(2) that)
  have dev: "device (snd res) =
         device ms @ replicate (length ps + 1) DRead @ (if tracks ms = [] then [] else [DStop])"
    by (simp add: res device_closeAll ms1(2,3) replicate_append_same)
  have "\<not> dev_running (device (snd res))"
  proof (cases "tracks ms = []")
    case True
    with inv(2) have "\<not> running_from False (device ms)"
      by (simp add: dev_inv_def dev_running_def)
    then have "\<not> running_from False (device ms @ replicate (length ps + 1) DRead)"
      by (simp only: running_from_reads not_False_eq_True)
    moreover have "device (snd res) = device ms @ replicate (length ps + 1) DRead"
      using True dev by simp
    ultimately show ?thesis by (simp add: dev_running_def)
  next
    case False
    have "device (snd res) = (device ms @ replicate (length ps + 1) DRead) @ [DStop]"
      using False dev by simp
    then show ?thesis unfolding dev_running_def by (simp only: running_from_snoc dev_call.case not_False_eq_True)
  qed
  with c dev lp show ?thesis by (auto simp: res tracks_closeAll)
qed

theorem readLoop_read_error_witness:
  "readLoop [ReadOk chunk_A, ReadErr, ReadOk chunk_B] (run example_source [EvGetTrack, EvGetTrack])
     = (Returned,
        \<lparr>device = device example_source @ [DStart, DRead, DRead, DStop],
         tracks = [],
         heap = [\<lparr>data = [chunk_A], closed = True\<rparr>, \<lparr>data = [chunk_A], closed = True\<rparr>],
         loops = 1\<rparr>)
   \<and> tracks (run example_source [EvGetTrack, EvGetTrack])
       = [(H264VideoTrack 0, 0), (H264VideoTrack 1, 1)]"
proof -
  let ?ms = "run example_source [EvGetTrack, EvGetTrack]"
  have t: "tracks ?ms = [(H264VideoTrack 0, 0), (H264VideoTrack 1, 1)]"
    by (simp add: exec_defs example_defs)
  have e: "readLoop [ReadOk chunk_A, ReadErr, ReadOk chunk_B] ?ms
     = (Returned,
        \<lparr>device = device example_source @ [DStart, DRead, DRead, DStop],
         tracks = [],
         heap = [\<lparr>data = [chunk_A], closed = True\<rparr>, \<lparr>data = [chunk_A], closed = True\<rparr>],
         loops = 1\<rparr>)"
    using readLoop_read_error [OF example_source_new, where es = "[EvGetTrack, EvGetTrack]"
        and ps = "[chunk_A]" and rest = "[ReadOk chunk_B]"]
    by (simp add: exec_defs example_defs)
  from e t show ?thesis by simp
qed

text \<open>
  Claim C5. \<^verbatim>\<open>CloseTrack\<close> of a track that the association map does not hold leaves
  the whole state as it is: the map, the calls on the device and every buffer. Closing a
  track twice is the same as closing it once.
\<close>

theorem CloseTrack_idempotent:
  "(map_lookup (tracks ms) t = None \<longrightarrow> CloseTrack t ms = ms)
   \<and> CloseTrack t (CloseTrack t ms) = CloseTrack t ms"
proof -
  have "map_lookup (tracks (CloseTrack t ms)) t = None"
    by (simp add: tracks_CloseTrack map_lookup_delete)
  then have "CloseTrack t (CloseTrack t ms) = CloseTrack t ms"
    by (simp add: CloseTrack_def [of t "CloseTrack t ms"])
  then show ?thesis by (simp add: CloseTrack_def)
qed

theorem CloseTrack_idempotent_witness:
  "map_lookup (tracks (run example_source [EvGetTrack, EvGetTrack])) (H264VideoTrack 7) = None
   \<and> CloseTrack (H264VideoTrack 7) (run example_source [EvGetTrack, EvGetTrack])
       = run example_source [EvGetTrack, EvGetTrack]
   \<and> CloseTrack (H264VideoTrack 0)
        (CloseTrack (H264VideoTrack 0) (run example_source [EvGetTrack, EvGetTrack]))
       = \<lparr>device = device example_source @ [DStart],
          tracks = [(H264VideoTrack 1, 1)],
          heap = [\<lparr>data = [], closed = True\<rparr>, \<lparr>data = [], closed = False\<rparr>],
          loops = 1\<rparr>"
proof -
  let ?ms = "run example_source [EvGetTrack, EvGetTrack]"
  have n: "map_lookup (tracks ?ms) (H264VideoTrack 7) = None"
    by (simp add: exec_defs example_defs)
  have c: "CloseTrack (H264VideoTrack 0) ?ms
       = \<lparr>device = device example_source @ [DStart],
          tracks = [(H264VideoTrack 1, 1)],
          heap = [\<lparr>data = [], closed = True\<rparr>, \<lparr>data = [], closed = False\<rparr>],
          loops = 1\<rparr>"
    by (simp add: exec_defs example_defs)
  from CloseTrack_idempotent [of ?ms "H264VideoTrack 7"] n
  have 1: "CloseTrack (H264VideoTrack 7) ?ms = ?ms" by blast
  from CloseTrack_idempotent [of ?ms "H264VideoTrack 0"] c
  have 2: "CloseTrack (H264VideoTrack 0) (CloseTrack (H264VideoTrack 0) ?ms)
       = \<lparr>device = device example_source @ [DStart],
          tracks = [(H264VideoTrack 1, 1)],
          heap = [\<lparr>data = [], closed = True\<rparr>, \<lparr>data = [], closed = False\<rparr>],
          loops = 1\<rparr>" by simp
  from n 1 2 show ?thesis by blast
qed

text \<open>
  Claim C7. The constructor returns either no source and an error, or a source and no
  error. When the device open fails it returns that error; when the open succeeds and the
  bitrate setting fails, or a requested flip fails, it returns that error, each time with
  no source. A source that is returned has an empty association map.
\<close>

theorem NewV4L2MediaSource_no_partial_object:
  fixes env filename width height bitrate hflip vflip
  defines "cfg \<equiv> \<lparr>Width = width, Height = height, Format = V4L2_PIX_FMT_H264,
                   RepeatSequenceHeader = True\<rparr>"
  defines "ret \<equiv> snd (NewV4L2MediaSource env filename width height bitrate hflip vflip)"
  shows "(Open_err env filename cfg = Some e \<longrightarrow> ret = (None, Some e))
    \<and> (Open_err env filename cfg = None \<and> SetBitrate_err env bitrate = Some e
          \<longrightarrow> ret = (None, Some e))
    \<and> (Open_err env filename cfg = None \<and> SetBitrate_err env bitrate = None
          \<and> hflip \<and> FlipHorizontal_err env = Some e \<longrightarrow> ret = (None, Some e))
    \<and> (Open_err env filename cfg = None \<and> SetBitrate_err env bitrate = None
          \<and> (hflip \<longrightarrow> FlipHorizontal_err env = None)
          \<and> vflip \<and> FlipVertical_err env = Some e \<longrightarrow> ret = (None, Some e))
    \<and> (\<forall>ms. fst ret = Some ms \<longrightarrow> snd ret = None \<and> tracks ms = [])
    \<and> (fst ret = None \<longrightarrow> snd ret \<noteq> None)"
  unfolding cfg_def ret_def
  by (auto simp: NewV4L2MediaSource_def Let_def split: option.splits)

theorem NewV4L2MediaSource_no_partial_object_witness:
  "snd (NewV4L2MediaSource (example_env None None) ''/dev/video1'' 640 480 1000000 True True)
     = (None, Some (AdapterError ''no such device''))
   \<and> snd (NewV4L2MediaSource (example_env None None) ''/dev/video0'' 640 480 0 True True)
     = (None, Some (AdapterError ''invalid bitrate''))
   \<and> snd (NewV4L2MediaSource (example_env (Some errNotSupported) None)
            ''/dev/video0'' 640 480 1000000 True True)
     = (None, Some errNotSupported)
   \<and> snd (NewV4L2MediaSource (example_env None (Some errNotSupported))
            ''/dev/video0'' 640 480 1000000 True True)
     = (None, Some errNotSupported)
   \<and> snd (snd (NewV4L2MediaSource (example_env None None)
            ''/dev/video0'' 640 480 1000000 True True)) = None
   \<and> tracks example_source = []"
proof -
  note a = NewV4L2MediaSource_no_partial_object [where env = "example_env None None"
      and filename = "''/dev/video1''" and width = 640 and height = 480 and bitrate = 1000000
      and hflip = True and vflip = True and e = "AdapterError ''no such device''"]
  note b = NewV4L2MediaSource_no_partial_object [where env = "example_env None None"
      and filename = "''/dev/video0''" and width = 640 and height = 480 and bitrate = 0
      and hflip = True and vflip = True and e = "AdapterError ''invalid bitrate''"]
  note c = NewV4L2MediaSource_no_partial_object [where env = "example_env (Some errNotSupported) None"
      and filename = "''/dev/video0''" and width = 640 and height = 480 and bitrate = 1000000
      and hflip = True and vflip = True and e = errNotSupported]
  note d = NewV4L2MediaSource_no_partial_object [where env = "example_env None (Some errNotSupported)"
      and filename = "''/dev/video0''" and width = 640 and height = 480 and bitrate = 1000000
      and hflip = True and vflip = True and e = errNotSupported]
  note e = NewV4L2MediaSource_no_partial_object [where env = "example_env None None"
      and filename = "''/dev/video0''" and width = 640 and height = 480 and bitrate = 1000000
      and hflip = False and vflip = False]
  have 1: "snd (NewV4L2MediaSource (example_env None None) ''/dev/video1'' 640 480 1000000 True True)
     = (None, Some (AdapterError ''no such device''))"
    using a by (simp add: example_env_def)
  have 2: "snd (NewV4L2MediaSource (example_env None None) ''/dev/video0'' 640 480 0 True True)
     = (None, Some (AdapterError ''invalid bitrate''))"
    using b by (simp add: example_env_def)
  have 3: "snd (NewV4L2MediaSource (example_env (Some errNotSupported) None)
            ''/dev/video0'' 640 480 1000000 True True) = (None, Some errNotSupported)"
    using c by (simp add: example_env_def)
  have 4: "snd (NewV4L2MediaSource (example_env None (Some errNotSupported))
            ''/dev/video0'' 640 480 1000000 True True) = (None, Some errNotSupported)"
    using d by (simp add: example_env_def)
  have 5: "tracks example_source = []"
    using e by (simp add: example_source_new)
  have 6: "snd (snd (NewV4L2MediaSource (example_env None None)
            ''/dev/video0'' 640 480 1000000 True True)) = None"
    by (simp add: new_defs)
  from 1 2 3 4 5 6 show ?thesis by simp
qed

text \<open>
  Claim C8. For every URL the constructor of the combined source returns no instance and
  the not-implemented error, which is distinct from the other errors.
\<close>

theorem NewRTSPAudioVideoSource_not_implemented:
  "NewRTSPAudioVideoSource url = (None, Some errNotImplemented)
   \<and> errNotImplemented \<noteq> errNotSupported
   \<and> (\<forall>m. errNotImplemented \<noteq> AdapterError m)"
  by (simp add: NewRTSPAudioVideoSource_def)

text \<open>
  Claim C9. Whatever the arguments and whatever the device adapter answers, the first call
  of the constructor opens the device with the given file name, width and height, the
  pixel format H.264 and the repetition of the sequence header switched on; it opens the
  device only once.
\<close>

theorem NewV4L2MediaSource_opens_h264:
  "\<exists>rest. fst (NewV4L2MediaSource env filename width height bitrate hflip vflip)
      = DOpen filename \<lparr>Width = width, Height = height, Format = V4L2_PIX_FMT_H264,
                         RepeatSequenceHeader = True\<rparr> # rest
    \<and> (\<forall>name cfg. DOpen name cfg \<notin> set rest)"
  by (auto simp: NewV4L2MediaSource_def Let_def split: option.splits)

theorem NewV4L2MediaSource_opens_h264_witness:
  "fst (NewV4L2MediaSource (example_env None None) ''/dev/video0'' 640 480 1000000 True False)
     = [DOpen ''/dev/video0'' example_cfg, DSetBitrate 1000000, DFlipHorizontal]"
  using NewV4L2MediaSource_opens_h264 [of "example_env None None" "''/dev/video0''" 640 480
      1000000 True False]
  by (simp add: new_defs)

text \<open>
  Claim C10. When the device open succeeds and the bitrate setting or a requested flip
  fails, the constructor returns no source and an error, and the calls it has made on the
  device are the open, the bitrate setting and the flips only: the device is neither
  stopped nor closed.
\<close>

theorem NewV4L2MediaSource_error_leaves_device_open:
  fixes env filename width height bitrate hflip vflip
  defines "cfg \<equiv> \<lparr>Width = width, Height = height, Format = V4L2_PIX_FMT_H264,
                   RepeatSequenceHeader = True\<rparr>"
  defines "res \<equiv> NewV4L2MediaSource env filename width height bitrate hflip vflip"
  assumes "Open_err env filename cfg = None"
    and "SetBitrate_err env bitrate \<noteq> None
         \<or> (hflip \<and> FlipHorizontal_err env \<noteq> None)
         \<or> (vflip \<and> FlipVertical_err env \<noteq> None)"
  shows "fst (snd res) = None \<and> snd (snd res) \<noteq> None
         \<and> DClose \<notin> set (fst res) \<and> DStop \<notin> set (fst res)
         \<and> set (fst res) \<subseteq> {DOpen filename cfg, DSetBitrate bitrate, DFlipHorizontal, DFlipVertical}"
  using assms(3,4) unfolding cfg_def res_def
  by (auto simp: NewV4L2MediaSource_def Let_def split: option.splits if_splits)

theorem NewV4L2MediaSource_error_leaves_device_open_witness:
  "NewV4L2MediaSource (example_env None (Some errNotSupported))
       ''/dev/video0'' 640 480 1000000 True True
     = ([DOpen ''/dev/video0'' example_cfg, DSetBitrate 1000000, DFlipHorizontal, DFlipVertical],
        None, Some errNotSupported)
   \<and> NewV4L2MediaSource (example_env None None) ''/dev/video0'' 640 480 0 False False
     = ([DOpen ''/dev/video0'' example_cfg, DSetBitrate 0], None,
        Some (AdapterError ''invalid bitrate''))"
proof -
  have o: "Open_err (example_env hf vf) ''/dev/video0''
             \<lparr>Width = 640, Height = 480, Format = V4L2_PIX_FMT_H264,
                RepeatSequenceHeader = True\<rparr> = None" for hf vf
    by (simp add: example_env_def)
  have v: "SetBitrate_err (example_env None (Some errNotSupported)) 1000000 \<noteq> None
         \<or> (True \<and> FlipHorizontal_err (example_env None (Some errNotSupported)) \<noteq> None)
         \<or> (True \<and> FlipVertical_err (example_env None (Some errNotSupported)) \<noteq> None)"
    by (simp add: example_env_def)
  have s: "SetBitrate_err (example_env None None) 0 \<noteq> None
         \<or> (False \<and> FlipHorizontal_err (example_env None None) \<noteq> None)
         \<or> (False \<and> FlipVertical_err (example_env None None) \<noteq> None)"
    by (simp add: example_env_def)
  from NewV4L2MediaSource_error_leaves_device_open [OF o v]
       NewV4L2MediaSource_error_leaves_device_open [OF o s]
  show ?thesis by (simp add: new_defs)
qed

end
